theory Spec2Isabelle
  imports Main
begin

section \<open>Python strings\<close>

text \<open>
  A Python \<open>str\<close> is a sequence of Unicode code points, so a string is a list of
  naturals; \<open>str\<close> turns an Isabelle literal into one. \<open>isspace\<close> is the set of
  code points that \<open>str.strip\<close>, \<open>str.lstrip\<close> and \<open>str.split(None)\<close> treat as
  whitespace: U+0009-000D, U+001C-0020, U+0085, U+00A0, U+1680, U+2000-200A, U+2028,
  U+2029, U+202F, U+205F, U+3000.
\<close>

type_synonym codepoint = nat
type_synonym pystr = "codepoint list"

definition str :: "string \<Rightarrow> pystr" where
  "str s = map of_char s"

definition isspace :: "codepoint \<Rightarrow> bool" where
  "isspace c =
     ((9 \<le> c \<and> c \<le> 13) \<or> (28 \<le> c \<and> c \<le> 32) \<or> c = 133 \<or> c = 160 \<or> c = 5760 \<or>
      (8192 \<le> c \<and> c \<le> 8202) \<or> c = 8232 \<or> c = 8233 \<or> c = 8239 \<or> c = 8287 \<or>
      c = 12288)"

definition lstrip :: "pystr \<Rightarrow> pystr" where
  "lstrip s = dropWhile isspace s"

definition rstrip :: "pystr \<Rightarrow> pystr" where
  "rstrip s = rev (dropWhile isspace (rev s))"

definition strip :: "pystr \<Rightarrow> pystr" where
  "strip s = rstrip (lstrip s)"

text \<open>\<open>s.startswith("#")\<close>; code point 35 is \<open>#\<close>.\<close>

definition startswith_hash :: "pystr \<Rightarrow> bool" where
  "startswith_hash s = (case s of [] \<Rightarrow> False | c # cs \<Rightarrow> c = 35)"

text \<open>
  \<open>s.split(None, 1)\<close>: leading whitespace is skipped, the first run of non-whitespace
  is the first element, and what follows it (leading whitespace skipped, the rest kept
  as it is) is the second element when it is not empty. A string of whitespace only
  gives the empty list.
\<close>

definition split_none_1 :: "pystr \<Rightarrow> pystr list" where
  "split_none_1 s =
     (let t = dropWhile isspace s in
      if t = [] then []
      else
        let w = takeWhile (\<lambda>c. \<not> isspace c) t;
            r = dropWhile isspace (dropWhile (\<lambda>c. \<not> isspace c) t)
        in if r = [] then [w] else [w, r])"

section \<open>The regular expressions\<close>

text \<open>
  \<open>[A-Za-z_]\<close> and \<open>[A-Za-z0-9_]\<close> by code point: \<open>A-Z\<close> is 65-90, \<open>a-z\<close> is 97-122,
  \<open>_\<close> is 95, \<open>0-9\<close> is 48-57.
\<close>

definition ident_start :: "codepoint \<Rightarrow> bool" where
  "ident_start c = ((65 \<le> c \<and> c \<le> 90) \<or> (97 \<le> c \<and> c \<le> 122) \<or> c = 95)"

definition ident_char :: "codepoint \<Rightarrow> bool" where
  "ident_char c = (ident_start c \<or> (48 \<le> c \<and> c \<le> 57))"

text \<open>
  \<open>_C_IDENT_PREFIX = re.compile(r"^[A-Za-z_][A-Za-z0-9_]*")\<close>: \<open>match\<close> anchors at the
  start and the star is greedy, so \<open>group(0)\<close> is the longest leading run; there is no
  match when the first character is not in \<open>[A-Za-z_]\<close>.
\<close>

definition C_IDENT_PREFIX_match :: "pystr \<Rightarrow> pystr option" where
  "C_IDENT_PREFIX_match s =
     (case s of
        [] \<Rightarrow> None
      | c # cs \<Rightarrow> if ident_start c then Some (c # takeWhile ident_char cs) else None)"

text \<open>
  \<open>_C_IDENT = re.compile(r"^[A-Za-z_][A-Za-z0-9_]*$")\<close>: without \<open>re.MULTILINE\<close>,
  \<open>$\<close> matches at the end of the string and also just before a newline (code point
  10) that ends the string. The run of \<open>[A-Za-z0-9_]\<close> cannot be cut short to reach
  such a place, since the character after a shorter run is in the class.
\<close>

definition C_IDENT_match :: "pystr \<Rightarrow> bool" where
  "C_IDENT_match s =
     (case s of
        [] \<Rightarrow> False
      | c # cs \<Rightarrow>
          ident_start c \<and> (let r = dropWhile ident_char cs in r = [] \<or> r = [10]))"

section \<open>Errors\<close>

text \<open>
  Every \<open>raise ValueError\<close> of the source is one constructor, named after the error
  kinds of the specification where it names one:
  \<^item> \<open>RawFormatError\<close>: "directive raw must start with '#'" and "raw directive keyword
    mismatch";
  \<^item> \<open>EmptyRawError\<close>: "DirectiveNode.raw must be non-empty", "ConditionalBranch.raw
    must be non-empty";
  \<^item> \<open>EmptyConditionError\<close>: "condition must be non-empty";
  \<^item> \<open>InvalidIdentifierError\<close>: "expected C identifier for ifdef/ifndef condition";
  \<^item> \<open>NullContentError\<close>: "TextBlock.content must not be None";
  \<^item> \<open>NullBodyError\<close>: "ConditionalBranch.body must not be None";
  \<^item> \<open>IllegalEntryKindError\<close>: "ConditionalGroup.entry.kind must be one of
    if/ifdef/ifndef";
  \<^item> \<open>HeterogeneousElifError\<close>: "ConditionalGroup.elifs[i].kind must be 'elif'";
  \<^item> \<open>IllegalNestedDirectiveError\<close>: "Illegal conditional directive inside body as
    DirectiveNode";
  \<^item> \<open>UnknownNodeTypeError\<close>: "Unknown node type in body";
  \<^item> \<open>EmptyPathError\<close>: "FileRoot.path must be non-empty";
  \<^item> \<open>NullItemsError\<close>: "FileRoot.items must not be None";
  \<^item> \<open>NullItemError\<close>: "FileRoot.items[i] is None".

  \<open>IndexError\<close> is what \<open>[0]\<close> raises on an empty list.
\<close>

datatype error =
    RawFormatError
  | EmptyRawError
  | EmptyConditionError
  | InvalidIdentifierError
  | NullContentError
  | NullBodyError
  | IllegalEntryKindError
  | HeterogeneousElifError
  | IllegalNestedDirectiveError
  | UnknownNodeTypeError
  | EmptyPathError
  | NullItemsError
  | NullItemError
  | IndexError

text \<open>Statements in sequence: the second runs when the first has not raised.\<close>

definition andthen :: "error + unit \<Rightarrow> error + 'a \<Rightarrow> error + 'a" where
  "andthen m k = (case m of Inl e \<Rightarrow> Inl e | Inr u \<Rightarrow> k)"

section \<open>Helpers of models.py\<close>

definition strip_hash_prefix :: "pystr \<Rightarrow> error + pystr" where
  "strip_hash_prefix raw =
     (let s = lstrip raw in
      if \<not> startswith_hash s then Inl RawFormatError else Inr s)"

text \<open>
  The first three statements of \<open>_expect_directive\<close>, which compute \<open>kw\<close>:
  \<open>s = _strip_hash_prefix(raw)[1:].lstrip()\<close>, \<open>m = _C_IDENT_PREFIX.match(s)\<close>,
  \<open>kw = m.group(0) if m else ""\<close>.
\<close>

definition directive_keyword :: "pystr \<Rightarrow> error + pystr" where
  "directive_keyword raw =
     (case strip_hash_prefix raw of
        Inl e \<Rightarrow> Inl e
      | Inr s0 \<Rightarrow>
          let s = lstrip (drop 1 s0) in
          Inr (case C_IDENT_PREFIX_match s of Some g \<Rightarrow> g | None \<Rightarrow> []))"

definition expect_directive :: "pystr \<Rightarrow> pystr \<Rightarrow> error + unit" where
  "expect_directive raw expected =
     (case directive_keyword raw of
        Inl e \<Rightarrow> Inl e
      | Inr kw \<Rightarrow> if kw \<noteq> expected then Inl RawFormatError else Inr ())"

text \<open>A \<open>cond\<close> that is \<open>None\<close> in Python is \<open>None\<close> here.\<close>

definition require_nonempty_condition :: "pystr option \<Rightarrow> error + unit" where
  "require_nonempty_condition cond =
     (case cond of
        None \<Rightarrow> Inl EmptyConditionError
      | Some c \<Rightarrow> if strip c = [] then Inl EmptyConditionError else Inr ())"

text \<open>
  The \<open>None\<close> case of the second step is never reached: \<open>_require_nonempty_condition\<close>
  has raised on \<open>None\<close> before \<open>cond.strip()\<close> runs.
\<close>

definition require_identifier :: "pystr option \<Rightarrow> error + unit" where
  "require_identifier cond =
     andthen (require_nonempty_condition cond)
       (case cond of
          None \<Rightarrow> Inl EmptyConditionError
        | Some c0 \<Rightarrow>
            let c = strip c0 in
            if \<not> C_IDENT_match c then Inl InvalidIdentifierError else Inr ())"

section \<open>The models\<close>

datatype directive_kind = KInclude | KDefine | KUndef | KPragma | KError

datatype branch_kind = KIf | KIfdef | KIfndef | KElif

text \<open>The string each \<open>Literal\<close> value of a \<open>kind\<close> field is.\<close>

fun directive_kind_name :: "directive_kind \<Rightarrow> pystr" where
  "directive_kind_name KInclude = str ''include''"
| "directive_kind_name KDefine = str ''define''"
| "directive_kind_name KUndef = str ''undef''"
| "directive_kind_name KPragma = str ''pragma''"
| "directive_kind_name KError = str ''error''"

fun branch_kind_name :: "branch_kind \<Rightarrow> pystr" where
  "branch_kind_name KIf = str ''if''"
| "branch_kind_name KIfdef = str ''ifdef''"
| "branch_kind_name KIfndef = str ''ifndef''"
| "branch_kind_name KElif = str ''elif''"

text \<open>
  \<open>Node = Union[TextBlock, DirectiveNode, ConditionalGroup]\<close>. A field holds a value
  of its annotated type; an element of a \<open>list[Node]\<close> is a \<open>node option\<close>, where
  \<open>None\<close> is Python's \<open>None\<close>, the value outside the union that \<open>_walk\<close> and
  \<open>_validate_root\<close> test for. An object of this type need not satisfy its class's
  validator: the validators below decide that.
\<close>

datatype node =
    TextBlock (content: pystr)
  | DirectiveNode (dkind: directive_kind) (raw: pystr)
  | ConditionalGroup (entry: branch) (elifs: "branch list option")
      (else_body: "node option list option") (else_raw: "pystr option") (endif_raw: pystr)
and branch =
    ConditionalBranch (bkind: branch_kind) (condition: pystr) (body: "node option list")
      (braw: pystr)

record FileRoot =
  path :: pystr
  items :: "node option list"

section \<open>The validators\<close>

text \<open>
  Each \<open>model_validator(mode="after")\<close> is a function from the field values given to
  the constructor to the object (\<open>return self\<close>) or the error raised. A field the
  validator tests against \<open>None\<close> is an \<open>option\<close> argument.
\<close>

definition validate_text :: "pystr option \<Rightarrow> error + node" where
  "validate_text content_arg =
     (case content_arg of
        None \<Rightarrow> Inl NullContentError
      | Some c \<Rightarrow> Inr (TextBlock c))"

definition validate_directive :: "directive_kind \<Rightarrow> pystr option \<Rightarrow> error + node" where
  "validate_directive k raw_arg =
     (case raw_arg of
        None \<Rightarrow> Inl EmptyRawError
      | Some r \<Rightarrow>
          if strip r = [] then Inl EmptyRawError
          else andthen (expect_directive r (directive_kind_name k)) (Inr (DirectiveNode k r)))"

text \<open>
  In \<open>validate_branch\<close> the last \<open>None\<close> case on the condition is never reached: both
  condition checks have raised on \<open>None\<close>.
\<close>

definition validate_branch ::
  "branch_kind \<Rightarrow> pystr option \<Rightarrow> node option list option \<Rightarrow> pystr option \<Rightarrow> error + branch"
where
  "validate_branch k cond body_arg raw_arg =
     (case raw_arg of
        None \<Rightarrow> Inl EmptyRawError
      | Some r \<Rightarrow>
          if strip r = [] then Inl EmptyRawError
          else
            andthen (expect_directive r (branch_kind_name k))
           (andthen (if k = KIf \<or> k = KElif then require_nonempty_condition cond
                     else require_identifier cond)
             (case body_arg of
                None \<Rightarrow> Inl NullBodyError
              | Some b \<Rightarrow>
                 (case cond of
                    None \<Rightarrow> Inl EmptyConditionError
                  | Some c \<Rightarrow> Inr (ConditionalBranch k c b r)))))"

text \<open>
  The keyword \<open>_walk\<close> reads off a directive's raw text:
  \<open>s = _strip_hash_prefix(n.raw)[1:].lstrip()\<close>, then
  \<open>kw = s.split(None, 1)[0] if s else ""\<close>.
\<close>

definition walk_keyword :: "pystr \<Rightarrow> error + pystr" where
  "walk_keyword r =
     (case strip_hash_prefix r of
        Inl e \<Rightarrow> Inl e
      | Inr s0 \<Rightarrow>
          let s = lstrip (drop 1 s0) in
          if s = [] then Inr []
          else (case split_none_1 s of [] \<Rightarrow> Inl IndexError | w # ws \<Rightarrow> Inr w))"

definition forbidden :: "pystr list" where
  "forbidden = [str ''if'', str ''ifdef'', str ''ifndef'', str ''elif'', str ''else'', str ''endif'']"

text \<open>The body of the loop of \<open>_walk\<close>, on one element.\<close>

fun walk_node :: "node option \<Rightarrow> error + unit" where
  "walk_node (Some (DirectiveNode k r)) =
     (case walk_keyword r of
        Inl e \<Rightarrow> Inl e
      | Inr kw \<Rightarrow> if kw \<in> set forbidden then Inl IllegalNestedDirectiveError else Inr ())"
| "walk_node (Some (ConditionalGroup e els eb er ef)) = Inr ()"
| "walk_node (Some (TextBlock c)) = Inr ()"
| "walk_node None = Inl UnknownNodeTypeError"

fun walk :: "node option list \<Rightarrow> error + unit" where
  "walk [] = Inr ()"
| "walk (n # nodes) = andthen (walk_node n) (walk nodes)"

text \<open>Step 2: \<open>for i, b in enumerate(self.elifs)\<close>, raising at the first that is not an elif.\<close>

fun check_elifs :: "branch list \<Rightarrow> error + unit" where
  "check_elifs [] = Inr ()"
| "check_elifs (b # bs) =
     (if bkind b \<noteq> KElif then Inl HeterogeneousElifError else check_elifs bs)"

text \<open>\<open>for b in self.elifs: _walk(b.body)\<close>.\<close>

fun walk_elifs :: "branch list \<Rightarrow> error + unit" where
  "walk_elifs [] = Inr ()"
| "walk_elifs (b # bs) = andthen (walk (body b)) (walk_elifs bs)"

text \<open>
  \<open>ConditionalGroup._validate_group\<close>. Step 3 (\<open>else_body\<close> present and not a list) has
  no branch here: an \<open>else_body\<close> of the annotated type \<open>Optional[list[Node]]\<close> never
  takes it.
\<close>

definition validate_group ::
  "branch \<Rightarrow> branch list option \<Rightarrow> node option list option \<Rightarrow> pystr option \<Rightarrow> pystr
     \<Rightarrow> error + node"
where
  "validate_group e els eb er ef =
     (if bkind e \<noteq> KIf \<and> bkind e \<noteq> KIfdef \<and> bkind e \<noteq> KIfndef
      then Inl IllegalEntryKindError
      else
        andthen (case els of None \<Rightarrow> Inr () | Some bs \<Rightarrow> check_elifs bs)
       (andthen (walk (body e))
       (andthen (case els of None \<Rightarrow> Inr () | Some bs \<Rightarrow> walk_elifs bs)
       (andthen (case eb of None \<Rightarrow> Inr () | Some ns \<Rightarrow> walk ns)
         (Inr (ConditionalGroup e els eb er ef))))))"

text \<open>The loop of \<open>_validate_root\<close> over \<open>items\<close>.\<close>

fun check_items :: "node option list \<Rightarrow> error + unit" where
  "check_items [] = Inr ()"
| "check_items (it # its) = (if it = None then Inl NullItemError else check_items its)"

definition validate_root :: "pystr option \<Rightarrow> node option list option \<Rightarrow> error + FileRoot" where
  "validate_root path_arg items_arg =
     (case path_arg of
        None \<Rightarrow> Inl EmptyPathError
      | Some p \<Rightarrow>
          if strip p = [] then Inl EmptyPathError
          else
            (case items_arg of
               None \<Rightarrow> Inl NullItemsError
             | Some its \<Rightarrow>
                 andthen (check_items its) (Inr \<lparr>path = p, items = its\<rparr>)))"

section \<open>core/tostring.py\<close>

text \<open>
  Modelled from the spec: the bodies of \<open>_tostring_node\<close> and \<open>_tostring_nodes\<close>, which
  core/tostring.py declares and does not implement (every body there is \<open>pass\<close>). The
  text regenerator "accepts a single Node, an ordered sequence of Node, or a mapping from
  file path to that file's node sequence" and "must reproduce source text as a pure
  function of the tree's content/raw fields by concatenation in tree order". Tree order
  in a \<open>ConditionalGroup\<close> is the order of its fields: the entry (its raw text, then its
  body), each elif likewise, \<open>else_raw\<close>, \<open>else_body\<close>, \<open>endif_raw\<close>; an absent field and a
  \<open>None\<close> element have no content or raw text and add nothing. \<open>tostring_branch\<close> is the
  text of one branch. The mapping form, whose include-statement rendering the
  specification leaves open, is not modelled.
\<close>

primrec tostring_node :: "node \<Rightarrow> pystr" and tostring_branch :: "branch \<Rightarrow> pystr" where
  "tostring_node (TextBlock c) = c"
| "tostring_node (DirectiveNode k r) = r"
| "tostring_node (ConditionalGroup e els eb er ef) =
     tostring_branch e
     @ concat (case map_option (map tostring_branch) els of None \<Rightarrow> [] | Some ts \<Rightarrow> ts)
     @ (case er of None \<Rightarrow> [] | Some r \<Rightarrow> r)
     @ concat (case map_option (map (map_option tostring_node)) eb of
                 None \<Rightarrow> []
               | Some ts \<Rightarrow> map (\<lambda>t. case t of None \<Rightarrow> [] | Some x \<Rightarrow> x) ts)
     @ ef"
| "tostring_branch (ConditionalBranch k c b r) =
     r @ concat (map (\<lambda>t. case t of None \<Rightarrow> [] | Some x \<Rightarrow> x)
                  (map (map_option tostring_node) b))"


section \<open>Notions the statements use\<close>

text \<open>
  The C-identifier grammar \<open>[A-Za-z_][A-Za-z0-9_]*\<close> as the specification words it: the
  whole string is one character of \<open>[A-Za-z_]\<close> followed by characters of
  \<open>[A-Za-z0-9_]\<close> only.
\<close>

definition c_identifier :: "pystr \<Rightarrow> bool" where
  "c_identifier s =
     (case s of [] \<Rightarrow> False | c # cs \<Rightarrow> ident_start c \<and> list_all ident_char cs)"



text \<open>
  The direct children of a group in the order \<open>_validate_group\<close> walks them:
  \<open>entry.body\<close>, each \<open>elifs[i].body\<close>, \<open>else_body\<close>.
\<close>

definition group_children ::
  "branch \<Rightarrow> branch list option \<Rightarrow> node option list option \<Rightarrow> node option list" where
  "group_children e els eb =
     body e @ concat (map body (case els of None \<Rightarrow> [] | Some bs \<Rightarrow> bs))
       @ (case eb of None \<Rightarrow> [] | Some ns \<Rightarrow> ns)"

text \<open>
  A child that is a \<open>DirectiveNode\<close> satisfies \<open>DirectiveNode\<close>'s own validator; any
  other child is not constrained.
\<close>

fun directive_ok :: "node option \<Rightarrow> bool" where
  "directive_ok (Some (DirectiveNode k r)) =
     (validate_directive k (Some r) = Inr (DirectiveNode k r))"
| "directive_ok n = True"

section \<open>Strings and the regular expressions\<close>

lemma isspace_not_ident_char: "isspace c \<Longrightarrow> \<not> ident_char c"
  unfolding isspace_def ident_char_def ident_start_def by arith

lemma not_isspace_hash: "\<not> isspace 35"
  by (simp add: isspace_def)

lemma isspace_newline: "isspace 10"
  by (simp add: isspace_def)

lemma rstrip_last: "rstrip s \<noteq> [] \<Longrightarrow> \<not> isspace (last (rstrip s))"
  unfolding rstrip_def by (simp add: last_rev hd_dropWhile)

lemma strip_last: "strip s \<noteq> [] \<Longrightarrow> \<not> isspace (last (strip s))"
  by (simp add: strip_def rstrip_last)

lemma dropWhile_singleton_last:
  assumes "dropWhile P cs = [x]"
  shows "last (c # cs) = x"
proof -
  have "cs = takeWhile P cs @ [x]"
    using assms takeWhile_dropWhile_id [of P cs] by simp
  then have "last cs = x" and "cs \<noteq> []"
    by (metis last_snoc, metis snoc_eq_iff_butlast)
  then show ?thesis by simp
qed

lemma C_IDENT_match_no_newline:
  assumes "s \<noteq> [] \<Longrightarrow> last s \<noteq> 10"
  shows "C_IDENT_match s = c_identifier s"
proof (cases s)
  case Nil
  then show ?thesis by (simp add: C_IDENT_match_def c_identifier_def)
next
  case (Cons c cs)
  with assms have "dropWhile ident_char cs \<noteq> [10]"
    using dropWhile_singleton_last [of ident_char cs 10 c] by auto
  with Cons show ?thesis
    by (simp add: C_IDENT_match_def c_identifier_def dropWhile_eq_Nil_conv list_all_iff)
qed

lemma C_IDENT_match_strip: "C_IDENT_match (strip c) = c_identifier (strip c)"
  using strip_last [of c] isspace_newline by (intro C_IDENT_match_no_newline) metis

lemma expect_directive_eq:
  "expect_directive r e = Inr () \<longleftrightarrow> directive_keyword r = Inr e"
  by (cases "directive_keyword r") (auto simp: expect_directive_def)

lemma expect_directive_Inl:
  "expect_directive r e \<noteq> Inr () \<Longrightarrow> expect_directive r e = Inl RawFormatError"
  by (cases "directive_keyword r")
     (auto simp: expect_directive_def directive_keyword_def strip_hash_prefix_def Let_def
           split: if_splits)

lemma require_identifier_eq:
  "require_identifier (Some c) =
     (if strip c = [] then Inl EmptyConditionError
      else if c_identifier (strip c) then Inr () else Inl InvalidIdentifierError)"
  by (simp add: require_identifier_def require_nonempty_condition_def andthen_def
      C_IDENT_match_strip)

lemma validate_branch_ok:
  assumes "strip r \<noteq> []" and "expect_directive r (branch_kind_name k) = Inr ()"
  shows "validate_branch k (Some c) (Some b) (Some r) =
     (if strip c = [] then Inl EmptyConditionError
      else if k \<noteq> KIf \<and> k \<noteq> KElif \<and> \<not> c_identifier (strip c) then Inl InvalidIdentifierError
      else Inr (ConditionalBranch k c b r))"
  using assms
  by (simp add: validate_branch_def andthen_def require_identifier_eq
      require_nonempty_condition_def)

lemma strip_hash_prefix_Inr:
  "strip_hash_prefix r = Inr s0 \<Longrightarrow> s0 = lstrip r \<and> (\<exists>t. s0 = 35 # t)"
  by (auto simp: strip_hash_prefix_def startswith_hash_def Let_def split: if_splits list.splits)

lemma directive_keyword_nonblank:
  assumes "directive_keyword r = Inr kw"
  shows "strip r \<noteq> []"
proof -
  from assms obtain s0 where s0: "strip_hash_prefix r = Inr s0"
    by (auto simp: directive_keyword_def split: sum.splits)
  then obtain t where "lstrip r = 35 # t"
    using strip_hash_prefix_Inr by metis
  then have "35 \<in> set (rev (lstrip r))" by simp
  then have "dropWhile isspace (rev (lstrip r)) \<noteq> []"
    using not_isspace_hash by (auto simp: dropWhile_eq_Nil_conv)
  then show ?thesis by (simp add: strip_def rstrip_def)
qed

lemma prefix_match_of_token:
  assumes "c_identifier w" and "w = takeWhile (\<lambda>c. \<not> isspace c) s"
  shows "C_IDENT_PREFIX_match s = Some w"
proof -
  from assms(1) obtain c w' where w: "w = c # w'" and c: "ident_start c" and w': "list_all ident_char w'"
    by (auto simp: c_identifier_def split: list.splits)
  define rest where "rest = dropWhile (\<lambda>c. \<not> isspace c) s"
  have "w @ rest = s"
    unfolding assms(2) rest_def by (rule takeWhile_dropWhile_id)
  then have s: "s = c # w' @ rest"
    using w by simp
  have "rest = [] \<or> isspace (hd rest)"
    using hd_dropWhile [of "\<lambda>c. \<not> isspace c" s] by (auto simp: rest_def)
  then have "takeWhile ident_char rest = []"
    using isspace_not_ident_char by (cases rest) auto
  with w' have "takeWhile ident_char (w' @ rest) = w'"
    by (simp add: takeWhile_append2 list_all_iff)
  with s c w show ?thesis
    by (simp add: C_IDENT_PREFIX_match_def)
qed

lemma split_none_1_lstrip:
  assumes "lstrip t \<noteq> []"
  shows "\<exists>ws. split_none_1 (lstrip t) = takeWhile (\<lambda>c. \<not> isspace c) (lstrip t) # ws"
proof -
  define s where "s = lstrip t"
  have idem: "dropWhile isspace s = s"
    unfolding s_def lstrip_def by (rule dropWhile_idem)
  define r where "r = dropWhile isspace (dropWhile (\<lambda>c. \<not> isspace c) s)"
  have "split_none_1 s = (if r = [] then [takeWhile (\<lambda>c. \<not> isspace c) s]
                          else [takeWhile (\<lambda>c. \<not> isspace c) s, r])"
    using assms unfolding split_none_1_def Let_def idem r_def s_def [symmetric] by simp
  then show ?thesis
    unfolding s_def [symmetric] by (cases "r = []") simp_all
qed

lemma walk_keyword_eq:
  assumes "strip_hash_prefix r = Inr s0"
  shows "walk_keyword r = Inr (takeWhile (\<lambda>c. \<not> isspace c) (lstrip (drop 1 s0)))"
proof (cases "lstrip (drop 1 s0) = []")
  case True
  with assms show ?thesis by (simp add: walk_keyword_def)
next
  case False
  from split_none_1_lstrip [OF False] obtain ws where
    "split_none_1 (lstrip (drop 1 s0)) = takeWhile (\<lambda>c. \<not> isspace c) (lstrip (drop 1 s0)) # ws" ..
  with assms False show ?thesis by (simp add: walk_keyword_def)
qed

lemma strip_hash_prefix_Inl: "strip_hash_prefix r = Inl e \<Longrightarrow> e = RawFormatError"
  by (simp add: strip_hash_prefix_def Let_def split: if_splits)

lemma walk_keyword_identifier:
  assumes "walk_keyword r = Inr kw" and "c_identifier kw"
  shows "directive_keyword r = Inr kw"
proof (cases "strip_hash_prefix r")
  case (Inl e)
  with assms(1) show ?thesis by (simp add: walk_keyword_def)
next
  case (Inr s0)
  from walk_keyword_eq [OF Inr] assms(1)
  have "kw = takeWhile (\<lambda>c. \<not> isspace c) (lstrip (drop 1 s0))" by simp
  with assms(2) have "C_IDENT_PREFIX_match (lstrip (drop 1 s0)) = Some kw"
    by (rule prefix_match_of_token)
  with Inr show ?thesis
    by (simp add: directive_keyword_def)
qed

lemma forbidden_identifier: "kw \<in> set forbidden \<Longrightarrow> c_identifier kw"
  by (auto simp: forbidden_def str_def c_identifier_def ident_start_def ident_char_def)

lemma directive_kind_name_not_forbidden: "directive_kind_name k \<notin> set forbidden"
  by (cases k) (simp_all add: forbidden_def str_def)

lemma walk_keyword_no_IndexError: "walk_keyword r \<noteq> Inl IndexError"
proof (cases "strip_hash_prefix r")
  case (Inl e)
  then show ?thesis using strip_hash_prefix_Inl [OF Inl] by (simp add: walk_keyword_def)
next
  case (Inr s0)
  then show ?thesis by (simp add: walk_keyword_eq)
qed

section \<open>Sequencing and the walk\<close>

lemma andthen_Inr_iff: "andthen m k = Inr x \<longleftrightarrow> m = Inr () \<and> k = Inr x"
  by (cases m) (simp_all add: andthen_def)

lemma andthen_Inl_iff: "andthen m k = Inl x \<longleftrightarrow> m = Inl x \<or> (m = Inr () \<and> k = Inl x)"
  by (cases m) (simp_all add: andthen_def)

lemma walk_Inr_iff: "walk ns = Inr () \<longleftrightarrow> list_all (\<lambda>n. walk_node n = Inr ()) ns"
  by (induction ns) (simp_all add: andthen_Inr_iff)

lemma walk_Inl: "walk ns = Inl x \<Longrightarrow> \<exists>n \<in> set ns. walk_node n = Inl x"
  by (induction ns) (auto simp: andthen_Inl_iff)

lemma walk_elifs_Inr_iff:
  "walk_elifs bs = Inr () \<longleftrightarrow> list_all (\<lambda>n. walk_node n = Inr ()) (concat (map body bs))"
  by (induction bs) (simp_all add: andthen_Inr_iff walk_Inr_iff)

lemma walk_elifs_Inl:
  "walk_elifs bs = Inl x \<Longrightarrow> \<exists>n \<in> set (concat (map body bs)). walk_node n = Inl x"
  by (induction bs) (auto simp: andthen_Inl_iff dest: walk_Inl)

lemma check_elifs_Inl: "check_elifs bs = Inl x \<Longrightarrow> x = HeterogeneousElifError"
  by (induction bs) (auto split: if_splits)

lemma validate_group_Inr_iff:
  "validate_group e els eb er ef = Inr g \<longleftrightarrow>
     bkind e \<noteq> KElif \<and>
     (case els of None \<Rightarrow> Inr () | Some bs \<Rightarrow> check_elifs bs) = Inr () \<and>
     list_all (\<lambda>n. walk_node n = Inr ()) (group_children e els eb) \<and>
     g = ConditionalGroup e els eb er ef"
proof -
  have k: "(bkind e \<noteq> KIf \<and> bkind e \<noteq> KIfdef \<and> bkind e \<noteq> KIfndef) = (bkind e = KElif)"
    by (cases "bkind e") simp_all
  show ?thesis
    unfolding validate_group_def k group_children_def
    by (cases els; cases eb) (auto simp: andthen_Inr_iff walk_Inr_iff walk_elifs_Inr_iff)
qed

lemma validate_group_Inl:
  assumes "validate_group e els eb er ef = Inl x"
  shows "x = IllegalEntryKindError \<or> x = HeterogeneousElifError \<or>
         (\<exists>n \<in> set (group_children e els eb). walk_node n = Inl x)"
proof -
  have k: "(bkind e \<noteq> KIf \<and> bkind e \<noteq> KIfdef \<and> bkind e \<noteq> KIfndef) = (bkind e = KElif)"
    by (cases "bkind e") simp_all
  from assms show ?thesis
    unfolding validate_group_def k group_children_def
    by (cases els; cases eb)
       (auto simp: andthen_Inl_iff split: if_splits
             dest: walk_Inl walk_elifs_Inl check_elifs_Inl)
qed

lemmas ev = validate_group_def validate_branch_def validate_directive_def validate_root_def
  validate_text_def andthen_def walk_keyword_def expect_directive_def directive_keyword_def
  strip_hash_prefix_def lstrip_def rstrip_def strip_def startswith_hash_def split_none_1_def
  isspace_def forbidden_def str_def require_identifier_def require_nonempty_condition_def
  C_IDENT_match_def C_IDENT_PREFIX_match_def ident_start_def ident_char_def c_identifier_def
  group_children_def

lemma walk_node_forbidden:
  "walk_keyword r = Inr kw \<Longrightarrow> kw \<in> set forbidden \<Longrightarrow>
     walk_node (Some (DirectiveNode k r)) = Inl IllegalNestedDirectiveError"
  by simp

lemma andthen_Inr: "andthen (Inr u) k = k"
  by (simp add: andthen_def)

lemma walk_append:
  "walk pre = Inr () \<Longrightarrow> walk (pre @ ns) = walk ns"
  by (induction pre) (simp_all add: andthen_Inr_iff andthen_Inr)


section \<open>The validators, case by case\<close>

lemma check_items_eq:
  "check_items its = (if None \<in> set its then Inl NullItemError else Inr ())"
  by (induction its) auto

lemma directive_keyword_ws:
  assumes "list_all isspace w1" and "list_all isspace w2"
  shows "directive_keyword (w1 @ 35 # w2 @ t) = directive_keyword (35 # t)"
proof -
  have l1: "lstrip (w1 @ 35 # w2 @ t) = 35 # w2 @ t"
    using assms(1) not_isspace_hash by (simp add: lstrip_def dropWhile_append2 list_all_iff)
  have l2: "lstrip (35 # t) = 35 # t"
    using not_isspace_hash by (simp add: lstrip_def)
  have l3: "lstrip (w2 @ t) = lstrip t"
    using assms(2) by (simp add: lstrip_def dropWhile_append2 list_all_iff)
  show ?thesis
    by (simp add: directive_keyword_def strip_hash_prefix_def startswith_hash_def l1 l2 l3)
qed

lemma validate_directive_iff:
  "validate_directive dk (Some r) = Inr n \<longleftrightarrow>
     directive_keyword r = Inr (directive_kind_name dk) \<and> n = DirectiveNode dk r"
proof (cases "strip r = []")
  case True
  then have "directive_keyword r \<noteq> Inr (directive_kind_name dk)"
    using directive_keyword_nonblank by blast
  with True show ?thesis by (simp add: validate_directive_def)
next
  case False
  then show ?thesis
    by (auto simp: validate_directive_def andthen_Inr_iff expect_directive_eq)
qed

lemma validate_branch_keyword:
  assumes "validate_branch k cond body_arg (Some r) = Inr x"
  shows "directive_keyword r = Inr (branch_kind_name k)"
proof (cases "strip r = []")
  case True
  with assms show ?thesis by (simp add: validate_branch_def)
next
  case False
  with assms have "expect_directive r (branch_kind_name k) = Inr ()"
    by (simp add: validate_branch_def andthen_Inr_iff)
  then show ?thesis by (simp add: expect_directive_eq)
qed

lemma walk_node_valid:
  assumes "directive_keyword r = Inr (directive_kind_name k)"
  shows "walk_node (Some (DirectiveNode k r)) = Inr ()"
proof -
  from assms obtain s0 where s0: "strip_hash_prefix r = Inr s0"
    by (cases "strip_hash_prefix r") (simp_all add: directive_keyword_def)
  define kw where "kw = takeWhile (\<lambda>c. \<not> isspace c) (lstrip (drop 1 s0))"
  have wk: "walk_keyword r = Inr kw"
    unfolding kw_def using s0 by (rule walk_keyword_eq)
  have "kw \<notin> set forbidden"
  proof
    assume f: "kw \<in> set forbidden"
    then have "directive_keyword r = Inr kw"
      using wk forbidden_identifier walk_keyword_identifier by blast
    with assms have "kw = directive_kind_name k" by simp
    with f directive_kind_name_not_forbidden show False by blast
  qed
  with wk show ?thesis by simp
qed

lemma walk_node_illegal_not_ok:
  assumes "walk_node n = Inl IllegalNestedDirectiveError"
  shows "\<not> directive_ok n"
proof (cases n)
  case None
  with assms show ?thesis by simp
next
  case (Some m)
  show ?thesis
  proof (cases m)
    case (DirectiveNode k r)
    show ?thesis
    proof
      assume "directive_ok n"
      then have "directive_keyword r = Inr (directive_kind_name k)"
        using Some DirectiveNode by (simp add: validate_directive_iff)
      then have "walk_node n = Inr ()"
        unfolding Some DirectiveNode by (rule walk_node_valid)
      with assms show False by simp
    qed
  next
    case (TextBlock c)
    with assms Some show ?thesis by simp
  next
    case (ConditionalGroup e els eb er ef)
    with assms Some show ?thesis by simp
  qed
qed

text \<open>
  What the walk does reject: a direct \<open>DirectiveNode\<close> child whose first
  whitespace-delimited token after \<open>#\<close> is a forbidden keyword, in any slot; in
  \<open>entry.body\<close>, after children that pass, with IllegalNestedDirectiveError. So it is for
  \<open>DirectiveNode(raw="#else")\<close>.
\<close>

lemma walk_token_forbidden_rejected:
  assumes "walk_keyword r = Inr kw" and "kw \<in> set forbidden"
  shows "(Some (DirectiveNode k r) \<in> set (group_children e els eb) \<longrightarrow>
            isl (validate_group e els eb er ef)) \<and>
         (bkind e \<noteq> KElif \<and>
          (case els of None \<Rightarrow> Inr () | Some bs \<Rightarrow> check_elifs bs) = Inr () \<and>
          body e = pre @ Some (DirectiveNode k r) # post \<and> walk pre = Inr () \<longrightarrow>
            validate_group e els eb er ef = Inl IllegalNestedDirectiveError)"
proof (intro conjI impI)
  assume mem: "Some (DirectiveNode k r) \<in> set (group_children e els eb)"
  show "isl (validate_group e els eb er ef)"
  proof (cases "validate_group e els eb er ef")
    case (Inl x)
    then show ?thesis by simp
  next
    case (Inr g)
    then have "list_all (\<lambda>n. walk_node n = Inr ()) (group_children e els eb)"
      by (simp add: validate_group_Inr_iff)
    with mem have "walk_node (Some (DirectiveNode k r)) = Inr ()"
      by (simp add: list_all_iff del: walk_node.simps)
    with walk_node_forbidden [OF assms] show ?thesis by simp
  qed
next
  assume a: "bkind e \<noteq> KElif \<and>
          (case els of None \<Rightarrow> Inr () | Some bs \<Rightarrow> check_elifs bs) = Inr () \<and>
          body e = pre @ Some (DirectiveNode k r) # post \<and> walk pre = Inr ()"
  then have "walk (body e) = Inl IllegalNestedDirectiveError"
    using walk_node_forbidden [OF assms, of k] by (simp add: walk_append andthen_def)
  with a show "validate_group e els eb er ef = Inl IllegalNestedDirectiveError"
    by (cases "bkind e") (simp_all add: validate_group_def andthen_def)
qed

lemma else_directive_rejected:
  "validate_group
     (ConditionalBranch KIf (str ''1'') [Some (DirectiveNode KInclude (str ''#else''))] (str ''#if 1''))
     None None None (str ''#endif'') = Inl IllegalNestedDirectiveError"
proof -
  have w: "walk_keyword (str ''#else'') = Inr (str ''else'')"
    by (simp add: ev)
  have f: "str ''else'' \<in> set forbidden"
    by (simp add: forbidden_def)
  show ?thesis
    using walk_token_forbidden_rejected [OF w f,
        of KInclude "ConditionalBranch KIf (str ''1'') [Some (DirectiveNode KInclude (str ''#else''))] (str ''#if 1'')"
           None None None "str ''#endif''" "[]" "[]"]
    by simp
qed

text \<open>
  The two extractions differ also on a directive that \<open>DirectiveNode\<close>'s validator
  accepts, where neither keyword is forbidden.
\<close>

lemma walk_keyword_include_differs:
  "validate_directive KInclude (Some (str ''#include<a.h>'')) =
     Inr (DirectiveNode KInclude (str ''#include<a.h>'')) \<and>
   directive_keyword (str ''#include<a.h>'') = Inr (str ''include'') \<and>
   walk_keyword (str ''#include<a.h>'') = Inr (str ''include<a.h>'')"
  by (simp add: ev)

section \<open>The claims\<close>


text \<open>
  C2. The keyword \<open>_walk\<close> extracts is not the keyword of \<open>_expect_directive\<close> on every
  raw string: on \<open>#if(X)\<close> the walk reads \<open>if(X)\<close>, the first whitespace-delimited token,
  where \<open>_expect_directive\<close> reads \<open>if\<close>, the longest identifier prefix. The first is not
  in the forbidden set and the second is, so a group with this directive as a child is
  constructed.
\<close>

theorem walk_keyword_not_directive_keyword:
  "walk_keyword (str ''#if(X)'') = Inr (str ''if(X)'') \<and>
   directive_keyword (str ''#if(X)'') = Inr (str ''if'') \<and>
   str ''if'' \<in> set forbidden \<and> str ''if(X)'' \<notin> set forbidden \<and>
   validate_group
     (ConditionalBranch KIf (str ''1'') [Some (DirectiveNode KInclude (str ''#if(X)''))]
        (str ''#if 1''))
     None None None (str ''#endif'') =
   Inr (ConditionalGroup
     (ConditionalBranch KIf (str ''1'') [Some (DirectiveNode KInclude (str ''#if(X)''))]
        (str ''#if 1''))
     None None None (str ''#endif''))"
  by (simp add: ev)



text \<open>
  C4. What \<open>ConditionalBranch\<close> construction returns, check by check. For ifdef and ifndef
  it succeeds only if the trimmed condition is a C identifier as a whole string, and a
  non-blank condition that is not one gives InvalidIdentifierError; for if and elif the
  condition need only be non-blank. (A blank condition gives EmptyConditionError for
  every kind.)
\<close>

theorem branch_condition_rule:
  "validate_branch k (Some c) (Some b) (Some r) =
     (if strip r = [] then Inl EmptyRawError
      else if directive_keyword r \<noteq> Inr (branch_kind_name k) then Inl RawFormatError
      else if strip c = [] then Inl EmptyConditionError
      else if (k = KIfdef \<or> k = KIfndef) \<and> \<not> c_identifier (strip c)
        then Inl InvalidIdentifierError
      else Inr (ConditionalBranch k c b r))"
proof (cases "strip r = []")
  case True
  then show ?thesis by (simp add: validate_branch_def)
next
  case nonblank: False
  show ?thesis
  proof (cases "directive_keyword r = Inr (branch_kind_name k)")
    case True
    then have "expect_directive r (branch_kind_name k) = Inr ()"
      by (simp add: expect_directive_eq)
    from validate_branch_ok [OF nonblank this, of c b] nonblank True show ?thesis
      by (cases k) simp_all
  next
    case False
    then have "expect_directive r (branch_kind_name k) = Inl RawFormatError"
      by (simp add: expect_directive_Inl expect_directive_eq)
    with nonblank False show ?thesis
      by (simp add: validate_branch_def andthen_def)
  qed
qed

theorem branch_condition_rule_witness:
  "validate_branch KIfdef (Some (str ''1BAD'')) (Some []) (Some (str ''#ifdef 1BAD'')) =
     Inl InvalidIdentifierError \<and>
   validate_branch KIfdef (Some (str ''FOO_BAR'')) (Some []) (Some (str ''#ifdef FOO_BAR'')) =
     Inr (ConditionalBranch KIfdef (str ''FOO_BAR'') [] (str ''#ifdef FOO_BAR'')) \<and>
   validate_branch KIfndef (Some (str ''FOO BAR'')) (Some []) (Some (str ''#ifndef FOO BAR'')) =
     Inl InvalidIdentifierError \<and>
   validate_branch KIf (Some (str ''1BAD && !x'')) (Some []) (Some (str ''#if 1BAD && !x'')) =
     Inr (ConditionalBranch KIf (str ''1BAD && !x'') [] (str ''#if 1BAD && !x'')) \<and>
   validate_branch KElif (Some (str ''  '')) (Some []) (Some (str ''#elif'')) =
     Inl EmptyConditionError"
proof -
  have r: "strip (str ''#ifdef 1BAD'') \<noteq> []" "strip (str ''#ifdef FOO_BAR'') \<noteq> []"
    "strip (str ''#ifndef FOO BAR'') \<noteq> []" "strip (str ''#if 1BAD && !x'') \<noteq> []"
    "strip (str ''#elif'') \<noteq> []"
    by (simp_all add: strip_def rstrip_def lstrip_def isspace_def str_def)
  have k: "directive_keyword (str ''#ifdef 1BAD'') = Inr (branch_kind_name KIfdef)"
    "directive_keyword (str ''#ifdef FOO_BAR'') = Inr (branch_kind_name KIfdef)"
    "directive_keyword (str ''#ifndef FOO BAR'') = Inr (branch_kind_name KIfndef)"
    "directive_keyword (str ''#if 1BAD && !x'') = Inr (branch_kind_name KIf)"
    "directive_keyword (str ''#elif'') = Inr (branch_kind_name KElif)"
    by (simp_all add: ev)
  have c: "strip (str ''1BAD'') = str ''1BAD''" "strip (str ''FOO_BAR'') = str ''FOO_BAR''"
    "strip (str ''FOO BAR'') = str ''FOO BAR''" "strip (str ''1BAD && !x'') \<noteq> []"
    "strip (str ''  '') = []"
    by (simp_all add: strip_def rstrip_def lstrip_def isspace_def str_def)
  have i: "\<not> c_identifier (str ''1BAD'')" "c_identifier (str ''FOO_BAR'')"
    "\<not> c_identifier (str ''FOO BAR'')" "str ''1BAD'' \<noteq> []" "str ''FOO_BAR'' \<noteq> []"
    "str ''FOO BAR'' \<noteq> []"
    by (simp_all add: c_identifier_def ident_start_def ident_char_def str_def)
  show ?thesis
    using branch_condition_rule [of KIfdef "str ''1BAD''" "[]" "str ''#ifdef 1BAD''"]
      branch_condition_rule [of KIfdef "str ''FOO_BAR''" "[]" "str ''#ifdef FOO_BAR''"]
      branch_condition_rule [of KIfndef "str ''FOO BAR''" "[]" "str ''#ifndef FOO BAR''"]
      branch_condition_rule [of KIf "str ''1BAD && !x''" "[]" "str ''#if 1BAD && !x''"]
      branch_condition_rule [of KElif "str ''  ''" "[]" "str ''#elif''"]
      r k c i
    by simp
qed

text \<open>
  C5. Keyword extraction ignores whitespace before \<open>#\<close> and between \<open>#\<close> and the keyword,
  and a \<open>ConditionalBranch\<close> or \<open>DirectiveNode\<close> is constructed only if the extracted
  keyword is exactly the name of its kind; a \<open>DirectiveNode\<close> is constructed if and only
  if it is.
\<close>

theorem keyword_extraction_exact:
  "(list_all isspace w1 \<and> list_all isspace w2 \<longrightarrow>
      directive_keyword (w1 @ 35 # w2 @ t) = directive_keyword (35 # t)) \<and>
   (validate_branch k cond body_arg (Some r) = Inr x \<longrightarrow>
      directive_keyword r = Inr (branch_kind_name k)) \<and>
   (validate_directive dk (Some r) = Inr n \<longleftrightarrow>
      directive_keyword r = Inr (directive_kind_name dk) \<and> n = DirectiveNode dk r)"
  using directive_keyword_ws validate_branch_keyword validate_directive_iff by blast

theorem keyword_extraction_exact_witness:
  "directive_keyword (str ''#   ifdef FOO'') = directive_keyword (str ''#ifdef FOO'') \<and>
   validate_branch KIfdef (Some (str ''FOO'')) (Some []) (Some (str ''#   ifdef FOO'')) =
     Inr (ConditionalBranch KIfdef (str ''FOO'') [] (str ''#   ifdef FOO'')) \<and>
   validate_branch KIfdef (Some (str ''FOO'')) (Some []) (Some (str ''#ifdef FOO'')) =
     Inr (ConditionalBranch KIfdef (str ''FOO'') [] (str ''#ifdef FOO'')) \<and>
   isl (validate_branch KIfdef (Some (str ''FOO'')) (Some []) (Some (str ''#ifde FOO''))) \<and>
   isl (validate_branch KIfdef (Some (str ''FOO'')) (Some []) (Some (str ''#IFDEF FOO'')))"
proof -
  have ws: "list_all isspace [] \<and> list_all isspace (str ''   '')"
    by (simp add: isspace_def str_def)
  have s: "str ''#   ifdef FOO'' = [] @ 35 # str ''   '' @ str ''ifdef FOO''"
    "str ''#ifdef FOO'' = 35 # str ''ifdef FOO''"
    by (simp_all add: str_def)
  have k1: "directive_keyword (str ''#ifde FOO'') \<noteq> Inr (branch_kind_name KIfdef)"
    by (simp add: ev)
  have k2: "directive_keyword (str ''#IFDEF FOO'') \<noteq> Inr (branch_kind_name KIfdef)"
    by (simp add: ev)
  have a: "validate_branch KIfdef (Some (str ''FOO'')) (Some []) (Some (str ''#   ifdef FOO'')) =
     Inr (ConditionalBranch KIfdef (str ''FOO'') [] (str ''#   ifdef FOO''))"
    by (simp add: ev)
  have b: "validate_branch KIfdef (Some (str ''FOO'')) (Some []) (Some (str ''#ifdef FOO'')) =
     Inr (ConditionalBranch KIfdef (str ''FOO'') [] (str ''#ifdef FOO''))"
    by (simp add: ev)
  have c: "isl (validate_branch KIfdef (Some (str ''FOO'')) (Some []) (Some (str ''#ifde FOO'')))"
    using keyword_extraction_exact [of "[]" "[]" "[]" KIfdef "Some (str ''FOO'')" "Some []"
        "str ''#ifde FOO''"] k1
    by (cases "validate_branch KIfdef (Some (str ''FOO'')) (Some []) (Some (str ''#ifde FOO''))")
       simp_all
  have d: "isl (validate_branch KIfdef (Some (str ''FOO'')) (Some []) (Some (str ''#IFDEF FOO'')))"
    using keyword_extraction_exact [of "[]" "[]" "[]" KIfdef "Some (str ''FOO'')" "Some []"
        "str ''#IFDEF FOO''"] k2
    by (cases "validate_branch KIfdef (Some (str ''FOO'')) (Some []) (Some (str ''#IFDEF FOO''))")
       simp_all
  have e: "directive_keyword (str ''#   ifdef FOO'') = directive_keyword (str ''#ifdef FOO'')"
    unfolding s
    using keyword_extraction_exact [of "[]" "str ''   ''" "str ''ifdef FOO''"] ws by blast
  from a b c d e show ?thesis by blast
qed

text \<open>
  C6. A \<open>ConditionalGroup\<close> whose entry has kind elif is not constructed, whatever
  \<open>elifs\<close>, \<open>else_body\<close>, \<open>else_raw\<close> and \<open>endif_raw\<close> are; a constructed group has an
  entry of kind if, ifdef or ifndef.
\<close>

theorem elif_entry_rejected:
  "(bkind e = KElif \<longrightarrow> validate_group e els eb er ef = Inl IllegalEntryKindError) \<and>
   (validate_group e els eb er ef = Inr g \<longrightarrow>
      bkind e = KIf \<or> bkind e = KIfdef \<or> bkind e = KIfndef)"
proof (intro conjI impI)
  assume "bkind e = KElif"
  then show "validate_group e els eb er ef = Inl IllegalEntryKindError"
    by (simp add: validate_group_def)
next
  assume "validate_group e els eb er ef = Inr g"
  then have "bkind e \<noteq> KElif"
    by (simp add: validate_group_Inr_iff)
  then show "bkind e = KIf \<or> bkind e = KIfdef \<or> bkind e = KIfndef"
    by (cases "bkind e") simp_all
qed

theorem elif_entry_rejected_witness:
  "validate_group (ConditionalBranch KElif (str ''X'') [] (str ''#elif X''))
     (Some [ConditionalBranch KElif (str ''Y'') [] (str ''#elif Y'')])
     (Some [Some (TextBlock (str ''int x;''))]) (Some (str ''#else'')) (str ''#endif'')
   = Inl IllegalEntryKindError"
  using elif_entry_rejected
    [of "ConditionalBranch KElif (str ''X'') [] (str ''#elif X'')"
        "Some [ConditionalBranch KElif (str ''Y'') [] (str ''#elif Y'')]"
        "Some [Some (TextBlock (str ''int x;''))]" "Some (str ''#else'')" "str ''#endif''"]
  by simp

text \<open>
  C7. \<open>FileRoot\<close> construction fails with EmptyPathError when the path is blank, also with
  no items; with a path that is not blank it fails with NullItemError when an item is
  \<open>None\<close>, and succeeds otherwise.
\<close>

theorem validate_root_checks:
  "validate_root (Some p) (Some its) =
     (if strip p = [] then Inl EmptyPathError
      else if None \<in> set its then Inl NullItemError
      else Inr \<lparr>path = p, items = its\<rparr>)"
  by (simp add: validate_root_def check_items_eq andthen_def)

theorem validate_root_checks_witness:
  "validate_root (Some (str [])) (Some []) = Inl EmptyPathError \<and>
   validate_root (Some (str ''  '')) (Some []) = Inl EmptyPathError \<and>
   validate_root (Some (str ''a.h'')) (Some [None]) = Inl NullItemError \<and>
   validate_root (Some (str ''a.h'')) (Some [Some (TextBlock (str ''x''))]) =
     Inr \<lparr>path = str ''a.h'', items = [Some (TextBlock (str ''x''))]\<rparr>"
proof -
  have e: "strip (str []) = []" "strip (str ''  '') = []" "strip (str ''a.h'') \<noteq> []"
    by (simp_all add: strip_def rstrip_def lstrip_def isspace_def str_def)
  show ?thesis
    using validate_root_checks [of "str []" "[]"] validate_root_checks [of "str ''  ''" "[]"]
      validate_root_checks [of "str ''a.h''" "[None]"]
      validate_root_checks [of "str ''a.h''" "[Some (TextBlock (str ''x''))]"] e
    by simp
qed

text \<open>
  C8. A \<open>DirectiveNode\<close> that satisfies its own validator passes the walk, and a group
  all of whose direct \<open>DirectiveNode\<close> children satisfy it never fails with
  IllegalNestedDirectiveError.
\<close>

theorem valid_directive_never_illegal:
  "(validate_directive k (Some r) = Inr n \<longrightarrow> walk_node (Some (DirectiveNode k r)) = Inr ()) \<and>
   (list_all directive_ok (group_children e els eb) \<longrightarrow>
      validate_group e els eb er ef \<noteq> Inl IllegalNestedDirectiveError)"
proof (intro conjI impI)
  assume "validate_directive k (Some r) = Inr n"
  then have "directive_keyword r = Inr (directive_kind_name k)"
    by (simp add: validate_directive_iff)
  then show "walk_node (Some (DirectiveNode k r)) = Inr ()"
    by (rule walk_node_valid)
next
  assume ok: "list_all directive_ok (group_children e els eb)"
  show "validate_group e els eb er ef \<noteq> Inl IllegalNestedDirectiveError"
  proof
    assume "validate_group e els eb er ef = Inl IllegalNestedDirectiveError"
    from validate_group_Inl [OF this] obtain m where
      m: "m \<in> set (group_children e els eb)" "walk_node m = Inl IllegalNestedDirectiveError"
      by auto
    from m(1) ok have "directive_ok m" by (simp add: list_all_iff)
    with walk_node_illegal_not_ok [OF m(2)] show False by simp
  qed
qed

theorem valid_directive_never_illegal_witness:
  "walk_node (Some (DirectiveNode KDefine (str ''#define if 1''))) = Inr () \<and>
   validate_group
     (ConditionalBranch KIfdef (str ''X'')
        [Some (DirectiveNode KInclude (str ''# include <a.h>'')), Some (TextBlock (str ''#else''))]
        (str ''#ifdef X''))
     (Some [ConditionalBranch KElif (str ''Y'') [Some (DirectiveNode KUndef (str ''#undef Y''))]
        (str ''#elif Y'')])
     (Some [Some (DirectiveNode KError (str ''#error else''))]) (Some (str ''#else''))
     (str ''#endif'') \<noteq> Inl IllegalNestedDirectiveError"
proof -
  have v: "validate_directive KDefine (Some (str ''#define if 1'')) =
      Inr (DirectiveNode KDefine (str ''#define if 1''))"
    "validate_directive KInclude (Some (str ''# include <a.h>'')) =
      Inr (DirectiveNode KInclude (str ''# include <a.h>''))"
    "validate_directive KUndef (Some (str ''#undef Y'')) =
      Inr (DirectiveNode KUndef (str ''#undef Y''))"
    "validate_directive KError (Some (str ''#error else'')) =
      Inr (DirectiveNode KError (str ''#error else''))"
    by (simp_all add: ev)
  have ok: "list_all directive_ok (group_children
     (ConditionalBranch KIfdef (str ''X'')
        [Some (DirectiveNode KInclude (str ''# include <a.h>'')), Some (TextBlock (str ''#else''))]
        (str ''#ifdef X''))
     (Some [ConditionalBranch KElif (str ''Y'') [Some (DirectiveNode KUndef (str ''#undef Y''))]
        (str ''#elif Y'')])
     (Some [Some (DirectiveNode KError (str ''#error else''))]))"
    using v by (simp add: group_children_def)
  show ?thesis
    using valid_directive_never_illegal [of KDefine "str ''#define if 1''"
        "DirectiveNode KDefine (str ''#define if 1'')"
        "ConditionalBranch KIfdef (str ''X'')
          [Some (DirectiveNode KInclude (str ''# include <a.h>'')), Some (TextBlock (str ''#else''))]
          (str ''#ifdef X'')"
        "Some [ConditionalBranch KElif (str ''Y'') [Some (DirectiveNode KUndef (str ''#undef Y''))]
          (str ''#elif Y'')]"
        "Some [Some (DirectiveNode KError (str ''#error else''))]"
        "Some (str ''#else'')" "str ''#endif''"] v(1) ok
    by blast
qed

text \<open>
  C9. A \<open>ConditionalBranch\<close> whose raw keyword is its kind and whose condition satisfies
  the rule of its kind is constructed, whatever else the raw text says: the condition
  field is not compared with the raw text.
\<close>

theorem condition_not_cross_checked:
  assumes "directive_keyword r = Inr (branch_kind_name k)"
    and "if k = KIf \<or> k = KElif then strip c \<noteq> [] else c_identifier (strip c)"
  shows "validate_branch k (Some c) (Some b) (Some r) = Inr (ConditionalBranch k c b r)"
proof -
  have nb: "strip r \<noteq> []"
    using assms(1) by (rule directive_keyword_nonblank)
  have ex: "expect_directive r (branch_kind_name k) = Inr ()"
    using assms(1) by (simp add: expect_directive_eq)
  have "strip c \<noteq> []"
    using assms(2) by (auto simp: c_identifier_def split: if_splits)
  with validate_branch_ok [OF nb ex, of c b] assms(2) show ?thesis
    by (simp split: if_splits)
qed

theorem condition_not_cross_checked_witness:
  "validate_branch KIfdef (Some (str ''FOO'')) (Some []) (Some (str ''#ifdef BAR'')) =
     Inr (ConditionalBranch KIfdef (str ''FOO'') [] (str ''#ifdef BAR''))"
proof -
  have k: "directive_keyword (str ''#ifdef BAR'') = Inr (branch_kind_name KIfdef)"
    by (simp add: ev)
  have c: "if KIfdef = KIf \<or> KIfdef = KElif then strip (str ''FOO'') \<noteq> []
           else c_identifier (strip (str ''FOO''))"
    by (simp add: ev)
  show ?thesis
    using condition_not_cross_checked [OF k c] .
qed

text \<open>
  C10. If a \<open>ConditionalGroup\<close> is constructed with some \<open>else_raw\<close> and \<open>endif_raw\<close>, it
  is constructed with any other, present or absent, with or without an \<open>else_body\<close>.
\<close>

theorem else_raw_endif_raw_unchecked:
  assumes "validate_group e els eb er ef = Inr g"
  shows "validate_group e els eb er' ef' = Inr (ConditionalGroup e els eb er' ef')"
  using assms by (simp add: validate_group_Inr_iff)

theorem else_raw_endif_raw_unchecked_witness:
  "validate_group (ConditionalBranch KIf (str ''1'') [] (str ''#if 1'')) None None
      (Some (str ''not an else'')) (str []) =
   Inr (ConditionalGroup (ConditionalBranch KIf (str ''1'') [] (str ''#if 1'')) None None
      (Some (str ''not an else'')) (str [])) \<and>
   validate_group (ConditionalBranch KIf (str ''1'') [] (str ''#if 1'')) None (Some [])
      None (str ''no keyword'') =
   Inr (ConditionalGroup (ConditionalBranch KIf (str ''1'') [] (str ''#if 1'')) None (Some [])
      None (str ''no keyword''))"
proof -
  have a: "validate_group (ConditionalBranch KIf (str ''1'') [] (str ''#if 1'')) None None
      None (str ''#endif'') =
    Inr (ConditionalGroup (ConditionalBranch KIf (str ''1'') [] (str ''#if 1'')) None None
      None (str ''#endif''))"
    by (simp add: validate_group_def andthen_def)
  have b: "validate_group (ConditionalBranch KIf (str ''1'') [] (str ''#if 1'')) None (Some [])
      (Some (str ''#else'')) (str ''#endif'') =
    Inr (ConditionalGroup (ConditionalBranch KIf (str ''1'') [] (str ''#if 1'')) None (Some [])
      (Some (str ''#else'')) (str ''#endif''))"
    by (simp add: validate_group_def andthen_def)
  show ?thesis
    using else_raw_endif_raw_unchecked [OF a, of "Some (str ''not an else'')" "str []"]
      else_raw_endif_raw_unchecked [OF b, of None "str ''no keyword''"]
    by simp
qed

end
